theory Spec2Isabelle
  imports
    Complex_Main
    "HOL-Library.Multiset"
    "HOL-Library.Char_ord"
    "HOL-Library.List_Lexorder"
    "HOL-Library.Product_Lexorder"
begin

section \<open>The global sensitivity demo of lca\_algebraic\<close>

text \<open>
  The development embeds \<^verbatim>\<open>examples/global_sensitivity_demo.py\<close>: the function
  \<^verbatim>\<open>add_exchange_uncertainty\<close>, which turns a random part of a database's exchanges
  into parameters, \<^verbatim>\<open>run_gsa\<close> and \<^verbatim>\<open>print_top_parameters\<close>.

  Python floats are modelled as exact reals: rounding, overflow, infinities and NaN
  are outside the model. The concrete inputs below are chosen so that float
  arithmetic gives what the reals give: amounts and fractions are dyadic, or the
  product truncates to the same integer (\<open>10 * 0.4\<close>, \<open>6 * 0.4\<close>).
\<close>

subsection \<open>The host model: activities and exchanges\<close>

text \<open>
  A Brightway key is a pair (database, code). The amount slot of an exchange holds a
  number or, once parameterized, a reference to a parameter.
\<close>

type_synonym key = "string \<times> string"

datatype amount = Num real | ParamRef string

record exchange =
  exc_input :: key
  exc_type :: string
  exc_amount :: amount

record activity =
  act_key :: key
  act_exchanges :: "exchange list"

text \<open>
  An exchange object is addressed by the position of its activity in the database
  and its own position in the activity.
\<close>

type_synonym addr = "nat \<times> nat"

definition exchange_at :: "activity list \<Rightarrow> addr \<Rightarrow> exchange" where
  "exchange_at db a = act_exchanges (db ! fst a) ! snd a"

text \<open>\<^verbatim>\<open>exc["amount"] = param\<close>: the write goes to the exchange object itself.\<close>

definition set_amount :: "activity list \<Rightarrow> addr \<Rightarrow> amount \<Rightarrow> activity list" where
  "set_amount db a v =
     db[fst a := (db ! fst a)\<lparr>act_exchanges :=
          (act_exchanges (db ! fst a))[snd a := (exchange_at db a)\<lparr>exc_amount := v\<rparr>]\<rparr>]"

text \<open>The addresses at which the database holds an exchange.\<close>

definition valid_addr :: "activity list \<Rightarrow> addr \<Rightarrow> bool" where
  "valid_addr db a \<longleftrightarrow> fst a < length db \<and> snd a < length (act_exchanges (db ! fst a))"

subsection \<open>Errors\<close>

text \<open>
  \<open>ValueError\<close> is what \<^verbatim>\<open>random.sample\<close> raises; the other two are the errors of
  the parameter registry.
\<close>

datatype error = ValueError | ConfigurationError | DuplicateParameterError

subsection \<open>The parameter registry\<close>

text \<open>
  Modelled from the spec: the library's parameter classes are not among the
  sources. A Parameter has a name, a distribution family, the bounds and the default;
  \<open>TRIANGLE\<close> is the family the demo asks for.
\<close>

datatype DistributionType = UNIFORM | TRIANGLE | NORMAL | DISCRETE

record parameter =
  name :: string
  distribution :: DistributionType
  low :: real
  high :: real
  default_value :: real

text \<open>The registry is a dictionary in insertion order.\<close>

type_synonym registry = "(string \<times> parameter) list"

text \<open>
  Modelled from the spec: \<^verbatim>\<open>agb.newFloatParam\<close> lives in the library's
  \<^verbatim>\<open>lca_algebraic.params\<close> module, which is not among the sources. The spec's
  Parameter has the invariant \<open>low \<le> default \<le> high\<close>, whose violation fails with
  \<open>ConfigurationError\<close>, and a unique name, whose redefinition fails with
  \<open>DuplicateParameterError\<close>. The value is validated first, then registered.
\<close>

definition newFloatParam ::
  "registry \<Rightarrow> string \<Rightarrow> real \<Rightarrow> real \<Rightarrow> real \<Rightarrow> DistributionType \<Rightarrow> error + registry" where
  "newFloatParam reg nm dflt mn mx distrib =
     (if \<not> (mn \<le> dflt \<and> dflt \<le> mx) then Inl ConfigurationError
      else if map_of reg nm \<noteq> None then Inl DuplicateParameterError
      else Inr (reg @ [(nm, \<lparr>name = nm, distribution = distrib,
                              low = mn, high = mx, default_value = dflt\<rparr>)]))"

subsection \<open>The module-level random generator\<close>

text \<open>
  \<^verbatim>\<open>random.sample\<close> draws from the generator that the \<^verbatim>\<open>random\<close> module keeps as
  hidden global state. The state is modelled as the stream of raw draws still to
  come; \<open>randbelow\<close> consumes one.
\<close>

type_synonym rng = "nat \<Rightarrow> nat"

definition randbelow :: "rng \<Rightarrow> nat \<Rightarrow> nat \<times> rng" where
  "randbelow g n = (g 0 mod n, \<lambda>i. g (Suc i))"

text \<open>
  The selection loop of \<^verbatim>\<open>random.sample\<close> (CPython, pool branch):
  \<^verbatim>\<open>
  for i in range(k):
      j = randbelow(n - i)
      result[i] = pool[j]
      pool[j] = pool[n - i - 1]
  \<close>
  The pool shrinks by one each round. The empty pool is never reached, since
  \<open>random_sample\<close> checks \<open>k \<le> n\<close> first and raises \<open>ValueError\<close> otherwise. (For
  large populations CPython tracks the chosen positions in a set instead; the result
  is a list of \<open>k\<close> elements at distinct positions either way.)
\<close>

fun sample_loop :: "'a list \<Rightarrow> nat \<Rightarrow> rng \<Rightarrow> 'a list \<times> rng" where
  "sample_loop pool 0 g = ([], g)"
| "sample_loop [] (Suc k) g = ([], g)"
| "sample_loop (p # ps) (Suc k) g =
     (let pool = p # ps;
          n = length pool;
          (j, g') = randbelow g n;
          (rest, g'') = sample_loop (take (n - 1) (pool[j := pool ! (n - 1)])) k g'
      in (pool ! j # rest, g''))"

definition random_sample :: "'a list \<Rightarrow> nat \<Rightarrow> rng \<Rightarrow> error + ('a list \<times> rng)" where
  "random_sample population k g =
     (if k \<le> length population then Inr (sample_loop population k g) else Inl ValueError)"

subsection \<open>The world the demo runs in\<close>

record world =
  databases :: "string \<Rightarrow> activity list"
  registry :: registry
  rng :: rng

subsection \<open>add\_exchange\_uncertainty\<close>

text \<open>
  \<^verbatim>\<open>[exc for act in db for exc in act.exchanges() if exc["type"] != "production"]\<close>,
  as the addresses of the exchange objects, in iteration order.
\<close>

fun exchs_from :: "nat \<Rightarrow> activity list \<Rightarrow> addr list" where
  "exchs_from i [] = []"
| "exchs_from i (act # acts) =
     [(i, j). j \<leftarrow> [0..<length (act_exchanges act)],
              exc_type (act_exchanges act ! j) \<noteq> ''production'']
     @ exchs_from (Suc i) acts"

definition exchs :: "activity list \<Rightarrow> addr list" where
  "exchs db = exchs_from 0 db"

text \<open>Python's \<^verbatim>\<open>int\<close> of a float truncates toward zero.\<close>

definition py_int :: "real \<Rightarrow> int" where
  "py_int x = (if 0 \<le> x then \<lfloor>x\<rfloor> else \<lceil>x\<rceil>)"

definition n_uncertain :: "nat \<Rightarrow> real \<Rightarrow> nat" where
  "n_uncertain len percent = nat (max 1 (py_int (real len * percent)))"

definition param_name :: "exchange \<Rightarrow> string" where
  "param_name exc = ''p_'' @ snd (exc_input exc)"

text \<open>
  The body of the \<^verbatim>\<open>for exc in selected\<close> loop:
  \<^verbatim>\<open>
  val = exc["amount"]
  param = agb.newFloatParam(f"p_{exc['input'][1]}", default=val,
              min=0.5 * val, max=1.5 * val, distrib=agb.params.DistributionType.TRIANGLE)
  exc["amount"] = param
  \<close>
  An amount that already is a parameter reference is no float, so no Parameter can
  be made of it: a violating input of the registry.
\<close>

definition assign_one :: "string \<Rightarrow> world \<Rightarrow> addr \<Rightarrow> error + world" where
  "assign_one db_name w a =
     (let exc = exchange_at (databases w db_name) a in
      case exc_amount exc of
        ParamRef p \<Rightarrow> Inl ConfigurationError
      | Num val \<Rightarrow>
          (case newFloatParam (registry w) (param_name exc) val (0.5 * val) (1.5 * val) TRIANGLE of
             Inl e \<Rightarrow> Inl e
           | Inr reg' \<Rightarrow>
               Inr (w\<lparr>registry := reg',
                      databases := (databases w)
                        (db_name := set_amount (databases w db_name) a (ParamRef (param_name exc)))\<rparr>)))"

text \<open>
  The loop. An exception leaves it with the world as it is at that moment: the
  writes of the rounds before stay.
\<close>

fun assign_loop :: "string \<Rightarrow> world \<Rightarrow> addr list \<Rightarrow> error option \<times> world" where
  "assign_loop db_name w [] = (None, w)"
| "assign_loop db_name w (a # rest) =
     (case assign_one db_name w a of
        Inl e \<Rightarrow> (Some e, w)
      | Inr w' \<Rightarrow> assign_loop db_name w' rest)"

text \<open>
  The exchanges that \<^verbatim>\<open>random.sample(exchs, n_uncertain)\<close> returns, with the
  generator state it leaves.
\<close>

definition select_exchanges :: "world \<Rightarrow> string \<Rightarrow> real \<Rightarrow> error + (addr list \<times> rng)" where
  "select_exchanges w db_name percent =
     (let es = exchs (databases w db_name)
      in random_sample es (n_uncertain (length es) percent) (rng w))"

text \<open>
  \<^verbatim>\<open>def add_exchange_uncertainty(db_name, percent=0.4)\<close>: an omitted argument is
  \<open>None\<close>.
\<close>

definition add_exchange_uncertainty :: "world \<Rightarrow> string \<Rightarrow> real option \<Rightarrow> error option \<times> world" where
  "add_exchange_uncertainty w db_name percent_arg =
     (let percent = (case percent_arg of None \<Rightarrow> 0.4 | Some p \<Rightarrow> p)
      in case select_exchanges w db_name percent of
           Inl e \<Rightarrow> (Some e, w)
         | Inr (selected, g') \<Rightarrow> assign_loop db_name (w\<lparr>rng := g'\<rparr>) selected)"

subsection \<open>run\_gsa and print\_top\_parameters\<close>






subsection \<open>The spec's wording, for comparison\<close>





subsection \<open>The demo database\<close>

text \<open>
  The foreground database that \<^verbatim>\<open>build_demo_database\<close> creates: \<open>fg1\<close>, \<open>fg2\<close>
  and \<open>root\<close>, each with two technosphere exchanges.
\<close>

definition tech :: "string \<Rightarrow> string \<Rightarrow> real \<Rightarrow> exchange" where
  "tech db code v = \<lparr>exc_input = (db, code), exc_type = ''technosphere'', exc_amount = Num v\<rparr>"

definition demo_fg :: "activity list" where
  "demo_fg =
     [\<lparr>act_key = (''fg'', ''fg1''), act_exchanges = [tech ''bg'' ''bg1'' 2, tech ''bg'' ''bg2'' 3]\<rparr>,
      \<lparr>act_key = (''fg'', ''fg2''), act_exchanges = [tech ''bg'' ''bg1'' 1, tech ''bg'' ''bg2'' 1]\<rparr>,
      \<lparr>act_key = (''fg'', ''root''), act_exchanges = [tech ''fg'' ''fg1'' 1, tech ''fg'' ''fg2'' 1]\<rparr>]"

text \<open>One activity whose exchanges are the given ones.\<close>

definition single_fg :: "exchange list \<Rightarrow> activity list" where
  "single_fg es = [\<lparr>act_key = (''fg'', ''root''), act_exchanges = es\<rparr>]"

definition production_only_fg :: "activity list" where
  "production_only_fg =
     single_fg [\<lparr>exc_input = (''fg'', ''root''), exc_type = ''production'', exc_amount = Num 1\<rparr>]"

definition five_fg :: "activity list" where
  "five_fg = single_fg (map (\<lambda>c. tech ''bg'' c 1) [''a'', ''b'', ''c'', ''d'', ''e''])"

definition ten_fg :: "activity list" where
  "ten_fg = single_fg (map (\<lambda>c. tech ''bg'' c 1)
     [''a'', ''b'', ''c'', ''d'', ''e'', ''f'', ''g'', ''h'', ''i'', ''j''])"

definition zero_fg :: "activity list" where
  "zero_fg = single_fg [tech ''bg'' ''bg1'' 0]"

definition negative_fg :: "activity list" where
  "negative_fg = single_fg [tech ''bg'' ''bg1'' 2, tech ''bg'' ''waste'' (- 1)]"

definition world_of :: "activity list \<Rightarrow> rng \<Rightarrow> world" where
  "world_of db g = \<lparr>databases = (\<lambda>n. if n = ''fg'' then db else []), registry = [], rng = g\<rparr>"

section \<open>Properties of the building blocks\<close>

subsection \<open>The number of exchanges to draw\<close>

lemma n_uncertain_pos: "1 \<le> n_uncertain len p"
  by (simp add: n_uncertain_def)

lemma py_int_le: "0 \<le> x \<Longrightarrow> x \<le> real n \<Longrightarrow> py_int x \<le> int n"
  by (simp add: py_int_def floor_le_iff) 

lemma n_uncertain_le:
  assumes "0 \<le> p" "p \<le> 1" "1 \<le> len"
  shows "n_uncertain len p \<le> len"
proof -
  have "real len * p \<le> real len" using assms by (simp add: mult_left_le)
  moreover have "0 \<le> real len * p" using assms by simp
  ultimately have "py_int (real len * p) \<le> int len" by (rule py_int_le[rotated])
  then show ?thesis using assms by (simp add: n_uncertain_def)
qed

subsection \<open>Sampling without replacement\<close>

lemma mset_pool_step:
  assumes "j < length pool"
  shows "mset (take (length pool - 1) (pool[j := pool ! (length pool - 1)])) = mset pool - {#pool ! j#}"
proof -
  let ?n = "length pool"
  let ?u = "pool[j := pool ! (?n - 1)]"
  have ne: "pool \<noteq> []" using assms by auto
  have tk: "take (?n - 1) ?u = butlast ?u" by (simp add: butlast_conv_take)
  have lst: "last ?u = pool ! (?n - 1)"
    using assms ne by (cases "j = ?n - 1") (simp_all add: last_conv_nth last_list_update)
  have "mset ?u = add_mset (last ?u) (mset (butlast ?u))"
    using ne by (metis append_butlast_last_id length_list_update list.size(3) length_0_conv mset.simps(2) mset_append union_mset_add_mset_right add.right_neutral mset.simps(1))
  then have "mset (butlast ?u) = mset ?u - {#last ?u#}" by simp
  also have "mset ?u = add_mset (pool ! (?n - 1)) (mset pool - {#pool ! j#})"
    using assms by (simp add: mset_update)
  finally show ?thesis using tk lst by simp
qed

lemma sample_loop_mset: "k \<le> length pool \<Longrightarrow>
   length (fst (sample_loop pool k g)) = k \<and> mset (fst (sample_loop pool k g)) \<subseteq># mset pool"
proof (induction pool k g rule: sample_loop.induct)
  case (3 p ps k g)
  let ?pool = "p # ps"
  obtain j g' where jg: "randbelow g (length ?pool) = (j, g')" by (cases "randbelow g (length ?pool)")
  then have jlt: "j < length ?pool" by (auto simp: randbelow_def)
  let ?pool' = "take (length ?pool - 1) (?pool[j := ?pool ! (length ?pool - 1)])"
  obtain rest g'' where r: "sample_loop ?pool' k g' = (rest, g'')" by (cases "sample_loop ?pool' k g'")
  have "length ?pool' = length ps" by (simp only: length_take length_list_update) simp
  then have "k \<le> length ?pool'" using "3.prems" by simp
  with "3.IH"[OF refl refl jg[symmetric]] r have lr: "length rest = k" and "mset rest \<subseteq># mset ?pool'" by simp_all
  then have "mset rest \<subseteq># mset ?pool - {#?pool ! j#}" using mset_pool_step[OF jlt] by simp
  moreover have "?pool ! j \<in># mset ?pool" using jlt by (metis nth_mem set_mset_mset)
  ultimately have "add_mset (?pool ! j) (mset rest) \<subseteq># mset ?pool"
    by (metis insert_DiffM mset_subset_eq_add_mset_cancel)
  moreover have "fst (sample_loop ?pool (Suc k) g) = ?pool ! j # rest"
    using jg r by (simp add: Let_def)
  ultimately show ?case using lr by simp
qed simp_all


lemma distinct_of_submset:
  assumes "mset xs \<subseteq># mset ys" "distinct ys"
  shows "distinct xs"
proof -
  have le1: "count (mset xs) a \<le> 1" for a
  proof -
    have "count (mset xs) a \<le> count (mset ys) a"
      using assms(1) by (rule mset_subset_eq_count)
    also have "\<dots> \<le> 1" using assms(2) by (simp add: distinct_count_atmost_1)
    finally show ?thesis .
  qed
  have "count (mset xs) a = (if a \<in> set xs then 1 else 0)" for a
  proof (cases "a \<in> set xs")
    case True
    then have "0 < count (mset xs) a" by simp
    with le1[of a] have "count (mset xs) a = 1" by linarith
    then show ?thesis using True by simp
  next
    case False
    then show ?thesis by (simp add: count_eq_zero_iff)
  qed
  then show ?thesis by (simp add: distinct_count_atmost_1)
qed

lemma set_of_submset: "mset xs \<subseteq># mset ys \<Longrightarrow> set xs \<subseteq> set ys"
  by (metis set_mset_mono set_mset_mset)

subsection \<open>Addresses of the eligible exchanges\<close>

lemma comprehension_map_filter: "[(i, j). j \<leftarrow> xs, P j] = map (Pair i) (filter P xs)"
  by (induction xs) simp_all

lemma exchs_from_mem:
  "(i', j) \<in> set (exchs_from i acts) \<longleftrightarrow>
     i \<le> i' \<and> i' - i < length acts \<and> j < length (act_exchanges (acts ! (i' - i)))
     \<and> exc_type (act_exchanges (acts ! (i' - i)) ! j) \<noteq> ''production''"
proof (induction acts arbitrary: i)
  case Nil
  then show ?case by simp
next
  case (Cons act acts)
  show ?case
  proof (cases "i' = i")
    case True
    then show ?thesis using Cons.IH[of "Suc i"] by (auto simp: comprehension_map_filter)
  next
    case False
    then have "(i', j) \<in> set (exchs_from i (act # acts)) \<longleftrightarrow> (i', j) \<in> set (exchs_from (Suc i) acts)"
      by (auto simp: comprehension_map_filter)
    also have "\<dots> \<longleftrightarrow> Suc i \<le> i' \<and> i' - Suc i < length acts \<and> j < length (act_exchanges (acts ! (i' - Suc i)))
     \<and> exc_type (act_exchanges (acts ! (i' - Suc i)) ! j) \<noteq> ''production''"
      by (rule Cons.IH)
    also have "\<dots> \<longleftrightarrow> i \<le> i' \<and> i' - i < length (act # acts) \<and> j < length (act_exchanges ((act # acts) ! (i' - i)))
     \<and> exc_type (act_exchanges ((act # acts) ! (i' - i)) ! j) \<noteq> ''production''"
    proof (cases "i < i'")
      case True
      then obtain d where "i' - i = Suc d" "i' - Suc i = d" by (metis Suc_diff_Suc diff_Suc_eq_diff_pred)
      then show ?thesis using True by auto
    next
      case False
      then show ?thesis using \<open>i' \<noteq> i\<close> by auto
    qed
    finally show ?thesis .
  qed
qed

lemma exchs_from_distinct: "distinct (exchs_from i acts)"
proof (induction acts arbitrary: i)
  case Nil
  then show ?case by simp
next
  case (Cons act acts)
  have "distinct (map (Pair i) (filter (\<lambda>j. exc_type (act_exchanges act ! j) \<noteq> ''production'') [0..<length (act_exchanges act)]))"
    by (simp add: distinct_map inj_on_def)
  moreover have "(i, j) \<notin> set (exchs_from (Suc i) acts)" for j
    by (simp add: exchs_from_mem)
  ultimately show ?case using Cons.IH[of "Suc i"] by (auto simp: comprehension_map_filter)
qed

lemma exchs_mem:
  "a \<in> set (exchs db) \<longleftrightarrow> valid_addr db a \<and> exc_type (exchange_at db a) \<noteq> ''production''"
  using exchs_from_mem[of "fst a" "snd a" 0 db]
  by (simp add: exchs_def valid_addr_def exchange_at_def)

lemma exchs_distinct: "distinct (exchs db)"
  by (simp add: exchs_def exchs_from_distinct)

subsection \<open>Writing an amount\<close>

lemma set_amount_other: "a \<noteq> b \<Longrightarrow> exchange_at (set_amount db a v) b = exchange_at db b"
proof (cases "fst a = fst b")
  case True
  assume "a \<noteq> b"
  with True have ne: "snd a \<noteq> snd b" by (simp add: prod_eq_iff)
  show ?thesis
  proof (cases "fst a < length db")
    case True
    then show ?thesis using \<open>fst a = fst b\<close> ne by (simp add: set_amount_def exchange_at_def)
  next
    case False
    then show ?thesis by (simp add: set_amount_def exchange_at_def list_update_beyond)
  qed
next
  case False
  then show ?thesis by (simp add: set_amount_def exchange_at_def)
qed

lemma set_amount_same:
  "valid_addr db a \<Longrightarrow> exchange_at (set_amount db a v) a = (exchange_at db a)\<lparr>exc_amount := v\<rparr>"
  by (simp add: set_amount_def exchange_at_def valid_addr_def)

lemma set_amount_valid: "valid_addr (set_amount db a v) b \<longleftrightarrow> valid_addr db b"
  by (cases "fst a = fst b") (auto simp: set_amount_def valid_addr_def nth_list_update)

subsection \<open>One round of the assignment loop\<close>

lemma assign_one_Inr:
  "assign_one dbn w a = Inr w' \<longleftrightarrow>
     (\<exists>v. exc_amount (exchange_at (databases w dbn) a) = Num v \<and> 0 \<le> v \<and>
          map_of (registry w) (param_name (exchange_at (databases w dbn) a)) = None \<and>
          w' = w\<lparr>registry := registry w @
                   [(param_name (exchange_at (databases w dbn) a),
                     \<lparr>name = param_name (exchange_at (databases w dbn) a), distribution = TRIANGLE,
                      low = 0.5 * v, high = 1.5 * v, default_value = v\<rparr>)],
                 databases := (databases w)
                   (dbn := set_amount (databases w dbn) a
                       (ParamRef (param_name (exchange_at (databases w dbn) a))))\<rparr>)"
  unfolding assign_one_def Let_def
  by (cases "exc_amount (exchange_at (databases w dbn) a)")
     (auto simp: newFloatParam_def split: sum.splits if_splits)

lemma assign_one_Inl:
  "assign_one dbn w a = Inl e \<longleftrightarrow>
     (case exc_amount (exchange_at (databases w dbn) a) of
        ParamRef p \<Rightarrow> e = ConfigurationError
      | Num v \<Rightarrow> (v < 0 \<and> e = ConfigurationError) \<or>
                 (0 \<le> v \<and> map_of (registry w) (param_name (exchange_at (databases w dbn) a)) \<noteq> None
                  \<and> e = DuplicateParameterError))"
  unfolding assign_one_def Let_def
  by (cases "exc_amount (exchange_at (databases w dbn) a)")
     (auto simp: newFloatParam_def split: sum.splits if_splits)

text \<open>What one round leaves untouched.\<close>

lemma assign_one_other:
  "assign_one dbn w a = Inr w' \<Longrightarrow> b \<noteq> a \<Longrightarrow>
     exchange_at (databases w' dbn) b = exchange_at (databases w dbn) b"
  by (auto simp: assign_one_Inr set_amount_other)

lemma assign_one_valid:
  "assign_one dbn w a = Inr w' \<Longrightarrow> valid_addr (databases w' dbn) b \<longleftrightarrow> valid_addr (databases w dbn) b"
  by (auto simp: assign_one_Inr set_amount_valid)

lemma assign_one_registry_mono:
  "assign_one dbn w a = Inr w' \<Longrightarrow> map_of (registry w) nm = Some p \<Longrightarrow> map_of (registry w') nm = Some p"
  by (auto simp: assign_one_Inr map_add_Some_iff)

lemma assign_one_other_db:
  "assign_one dbn w a = Inr w' \<Longrightarrow> n \<noteq> dbn \<Longrightarrow> databases w' n = databases w n"
  by (auto simp: assign_one_Inr)

lemma assign_one_rng:
  "assign_one dbn w a = Inr w' \<Longrightarrow> rng w' = rng w"
  by (auto simp: assign_one_Inr)

subsection \<open>The assignment loop\<close>

lemma assign_loop_other:
  "assign_loop dbn w sel = (r, w') \<Longrightarrow> b \<notin> set sel \<Longrightarrow>
     exchange_at (databases w' dbn) b = exchange_at (databases w dbn) b"
proof (induction sel arbitrary: w)
  case Nil
  then show ?case by simp
next
  case (Cons a sel)
  show ?case
  proof (cases "assign_one dbn w a")
    case (Inl e)
    with Cons.prems show ?thesis by simp
  next
    case (Inr w1)
    with Cons.prems have "assign_loop dbn w1 sel = (r, w')" "b \<notin> set sel" "b \<noteq> a" by auto
    then show ?thesis using Cons.IH[of w1] assign_one_other[OF Inr] by simp
  qed
qed

lemma assign_loop_valid:
  "assign_loop dbn w sel = (r, w') \<Longrightarrow> valid_addr (databases w' dbn) b \<longleftrightarrow> valid_addr (databases w dbn) b"
proof (induction sel arbitrary: w)
  case Nil
  then show ?case by simp
next
  case (Cons a sel)
  show ?case
  proof (cases "assign_one dbn w a")
    case (Inl e)
    with Cons.prems show ?thesis by simp
  next
    case (Inr w1)
    with Cons.prems have "assign_loop dbn w1 sel = (r, w')" by simp
    then show ?thesis using Cons.IH[of w1] assign_one_valid[OF Inr] by simp
  qed
qed

lemma assign_loop_registry_mono:
  "assign_loop dbn w sel = (r, w') \<Longrightarrow> map_of (registry w) nm = Some p \<Longrightarrow> map_of (registry w') nm = Some p"
proof (induction sel arbitrary: w)
  case Nil
  then show ?case by simp
next
  case (Cons a sel)
  show ?case
  proof (cases "assign_one dbn w a")
    case (Inl e)
    with Cons.prems show ?thesis by simp
  next
    case (Inr w1)
    with Cons.prems have "assign_loop dbn w1 sel = (r, w')" by simp
    then show ?thesis using Cons.IH[of w1] assign_one_registry_mono[OF Inr Cons.prems(2)] by simp
  qed
qed


text \<open>What a completed loop did to each exchange it processed.\<close>

lemma assign_loop_done:
  assumes "assign_loop dbn w sel = (None, w')" "distinct sel" "a \<in> set sel"
    and "\<forall>b\<in>set sel. valid_addr (databases w dbn) b"
  shows "\<exists>v. exc_amount (exchange_at (databases w dbn) a) = Num v \<and> 0 \<le> v \<and>
           map_of (registry w') (param_name (exchange_at (databases w dbn) a)) =
             Some \<lparr>name = param_name (exchange_at (databases w dbn) a), distribution = TRIANGLE,
                   low = 0.5 * v, high = 1.5 * v, default_value = v\<rparr> \<and>
           exchange_at (databases w' dbn) a =
             (exchange_at (databases w dbn) a)
               \<lparr>exc_amount := ParamRef (param_name (exchange_at (databases w dbn) a))\<rparr>"
  using assms
proof (induction sel arbitrary: w)
  case Nil
  then show ?case by simp
next
  case (Cons c sel)
  from Cons.prems(1) obtain w1 where w1: "assign_one dbn w c = Inr w1"
    and rest: "assign_loop dbn w1 sel = (None, w')"
    by (cases "assign_one dbn w c") auto
  show ?case
  proof (cases "a = c")
    case True
    let ?e = "exchange_at (databases w dbn) a"
    from w1 True obtain v where v: "exc_amount ?e = Num v" "0 \<le> v"
      and reg: "registry w1 = registry w @ [(param_name ?e,
                     \<lparr>name = param_name ?e, distribution = TRIANGLE,
                      low = 0.5 * v, high = 1.5 * v, default_value = v\<rparr>)]"
      and fresh: "map_of (registry w) (param_name ?e) = None"
      and db: "databases w1 dbn = set_amount (databases w dbn) a (ParamRef (param_name ?e))"
      by (auto simp: assign_one_Inr)
    have "map_of (registry w1) (param_name ?e) = Some \<lparr>name = param_name ?e, distribution = TRIANGLE,
                      low = 0.5 * v, high = 1.5 * v, default_value = v\<rparr>"
      using reg fresh by (simp add: map_add_Some_iff)
    then have r: "map_of (registry w') (param_name ?e) = Some \<lparr>name = param_name ?e, distribution = TRIANGLE,
                      low = 0.5 * v, high = 1.5 * v, default_value = v\<rparr>"
      by (rule assign_loop_registry_mono[OF rest])
    have "a \<notin> set sel" using Cons.prems(2) True by simp
    then have "exchange_at (databases w' dbn) a = exchange_at (databases w1 dbn) a"
      by (rule assign_loop_other[OF rest])
    also have "\<dots> = ?e\<lparr>exc_amount := ParamRef (param_name ?e)\<rparr>"
      using Cons.prems(4) True db by (simp add: set_amount_same)
    finally show ?thesis using v r by blast
  next
    case False
    then have ain: "a \<in> set sel" using Cons.prems(3) by simp
    have same: "exchange_at (databases w1 dbn) a = exchange_at (databases w dbn) a"
      using assign_one_other[OF w1 False] .
    have "\<forall>b\<in>set sel. valid_addr (databases w1 dbn) b"
      using Cons.prems(4) assign_one_valid[OF w1] by simp
    from Cons.IH[OF rest _ ain this] Cons.prems(2) same show ?thesis by simp
  qed
qed


subsection \<open>Selection and the whole operation\<close>

lemma select_exchanges_Inr:
  assumes "select_exchanges w dbn p = Inr (sel, g')"
  shows "length sel = n_uncertain (length (exchs (databases w dbn))) p"
    and "distinct sel"
    and "set sel \<subseteq> set (exchs (databases w dbn))"
proof -
  let ?es = "exchs (databases w dbn)"
  let ?k = "n_uncertain (length ?es) p"
  from assms have k: "?k \<le> length ?es" and s: "sample_loop ?es ?k (rng w) = (sel, g')"
    by (auto simp: select_exchanges_def random_sample_def Let_def split: if_splits)
  from sample_loop_mset[OF k, of "rng w"] s
  have l: "length sel = ?k" and m: "mset sel \<subseteq># mset ?es" by simp_all
  show "length sel = ?k" by (rule l)
  show "distinct sel" using m exchs_distinct by (rule distinct_of_submset)
  show "set sel \<subseteq> set ?es" using m by (rule set_of_submset)
qed

lemma select_exchanges_Inl:
  "select_exchanges w dbn p = Inl e \<longleftrightarrow>
     e = ValueError \<and> length (exchs (databases w dbn)) < n_uncertain (length (exchs (databases w dbn))) p"
  by (auto simp: select_exchanges_def random_sample_def Let_def)

lemma add_exchange_uncertainty_Some:
  "add_exchange_uncertainty w dbn (Some p) =
     (case select_exchanges w dbn p of
        Inl e \<Rightarrow> (Some e, w)
      | Inr (sel, g') \<Rightarrow> assign_loop dbn (w\<lparr>rng := g'\<rparr>) sel)"
  by (simp add: add_exchange_uncertainty_def)


subsection \<open>Evaluation on concrete inputs\<close>

lemma sample_loop_numeral:
  "sample_loop (p # ps) (numeral v) g =
     (let pool = p # ps;
          n = length pool;
          (j, g') = randbelow g n;
          (rest, g'') = sample_loop (take (n - 1) (pool[j := pool ! (n - 1)])) (pred_numeral v) g'
      in (pool ! j # rest, g''))"
  by (simp add: numeral_eq_Suc)

lemmas eval_defs = sample_loop_numeral add_exchange_uncertainty_def select_exchanges_def random_sample_def
  n_uncertain_def py_int_def exchs_def world_of_def demo_fg_def tech_def randbelow_def
  single_fg_def production_only_fg_def five_fg_def ten_fg_def zero_fg_def negative_fg_def
  assign_one_def newFloatParam_def param_name_def exchange_at_def set_amount_def Let_def

subsection \<open>Further facts about the loop and the operation\<close>

lemma assign_loop_new_params:
  "assign_loop dbn w sel = (r, w') \<Longrightarrow>
     \<exists>news. registry w' = registry w @ news \<and>
       (\<forall>(nm, p)\<in>set news. name p = nm \<and> distribution p = TRIANGLE \<and> 0 \<le> default_value p \<and>
            low p = 0.5 * default_value p \<and> high p = 1.5 * default_value p)"
proof (induction sel arbitrary: w)
  case Nil
  then show ?case by simp
next
  case (Cons a sel)
  show ?case
  proof (cases "assign_one dbn w a")
    case (Inl e)
    with Cons.prems show ?thesis by simp
  next
    case (Inr w1)
    with Cons.prems have "assign_loop dbn w1 sel = (r, w')" by simp
    from Cons.IH[OF this] obtain news where
      n: "registry w' = registry w1 @ news"
         "\<forall>(nm, p)\<in>set news. name p = nm \<and> distribution p = TRIANGLE \<and> 0 \<le> default_value p \<and>
            low p = 0.5 * default_value p \<and> high p = 1.5 * default_value p"
      by blast
    from Inr obtain v where v: "0 \<le> v"
      "registry w1 = registry w @ [(param_name (exchange_at (databases w dbn) a),
                     \<lparr>name = param_name (exchange_at (databases w dbn) a), distribution = TRIANGLE,
                      low = 0.5 * v, high = 1.5 * v, default_value = v\<rparr>)]"
      by (auto simp: assign_one_Inr)
    let ?new = "(param_name (exchange_at (databases w dbn) a),
                     \<lparr>name = param_name (exchange_at (databases w dbn) a), distribution = TRIANGLE,
                      low = 0.5 * v, high = 1.5 * v, default_value = v\<rparr>)"
    have "registry w' = registry w @ (?new # news)" using n(1) v(2) by simp
    moreover have "\<forall>(nm, p)\<in>set (?new # news). name p = nm \<and> distribution p = TRIANGLE \<and> 0 \<le> default_value p \<and>
            low p = 0.5 * default_value p \<and> high p = 1.5 * default_value p"
      using n(2) v(1) by simp
    ultimately show ?thesis by blast
  qed
qed

lemma add_exchange_uncertainty_new_params:
  assumes "add_exchange_uncertainty w dbn pa = (r, w')"
  shows "\<exists>news. registry w' = registry w @ news \<and>
       (\<forall>(nm, p)\<in>set news. name p = nm \<and> distribution p = TRIANGLE \<and> 0 \<le> default_value p \<and>
            low p = 0.5 * default_value p \<and> high p = 1.5 * default_value p)"
proof -
  define pc where "pc = (case pa of None \<Rightarrow> 0.4 | Some p \<Rightarrow> p)"
  show ?thesis
  proof (cases "select_exchanges w dbn pc")
    case (Inl e)
    with assms have "w' = w" by (simp add: add_exchange_uncertainty_def pc_def)
    then show ?thesis by simp
  next
    case (Inr sg)
    obtain sel g' where sg: "sg = (sel, g')" by (cases sg)
    with Inr assms have "assign_loop dbn (w\<lparr>rng := g'\<rparr>) sel = (r, w')"
      by (simp add: add_exchange_uncertainty_def pc_def)
    from assign_loop_new_params[OF this] show ?thesis by simp
  qed
qed

lemma select_exchanges_valid:
  assumes "select_exchanges w dbn p = Inr (sel, g')" "a \<in> set sel"
  shows "valid_addr (databases w dbn) a"
    and "exc_type (exchange_at (databases w dbn) a) \<noteq> ''production''"
  using select_exchanges_Inr(3)[OF assms(1)] assms(2) exchs_mem by blast+

lemma assign_loop_append:
  "assign_loop dbn w pre = (None, w1) \<Longrightarrow> assign_loop dbn w (pre @ post) = assign_loop dbn w1 post"
proof (induction pre arbitrary: w)
  case Nil
  then show ?case by simp
next
  case (Cons a pre)
  then show ?case by (cases "assign_one dbn w a") auto
qed

lemma add_exchange_uncertainty_selected:
  "select_exchanges w dbn p = Inr (sel, g') \<Longrightarrow>
     add_exchange_uncertainty w dbn (Some p) = assign_loop dbn (w\<lparr>rng := g'\<rparr>) sel"
  by (simp add: add_exchange_uncertainty_def)

lemma assign_loop_stops:
  assumes "assign_loop dbn w0 pre = (None, w1)" "assign_one dbn w1 a = Inl e"
  shows "assign_loop dbn w0 (pre @ a # post) = (Some e, w1)"
  using assign_loop_append[OF assms(1), of "a # post"] assms(2) by simp

lemma next_exchange_untouched:
  assumes "select_exchanges w dbn p = Inr (pre @ a # post, g')"
    and "assign_loop dbn (w\<lparr>rng := g'\<rparr>) pre = (None, w1)"
  shows "exchange_at (databases w1 dbn) a = exchange_at (databases w dbn) a"
proof -
  have "distinct (pre @ a # post)" using select_exchanges_Inr(2)[OF assms(1)] .
  then have "a \<notin> set pre" by simp
  from assign_loop_other[OF assms(2) this] show ?thesis by simp
qed





section \<open>The claims\<close>







text \<open>
  C3. Every parameter that a run of the operation adds to the registry satisfies
  \<open>low \<le> default \<le> high\<close>, whatever the amounts of the selected exchanges are. An
  exchange with a negative amount \<open>v\<close> would give \<open>low = 0.5 v > v > 1.5 v = high\<close>:
  when the loop reaches it, the run fails with \<open>ConfigurationError\<close> and the world is
  the one the rounds before left, so no parameter is made of it. (The registry is the
  one modelled from the spec.)
\<close>

theorem created_parameters_within_bounds:
  assumes "add_exchange_uncertainty w db_name (Some percent) = (r, w')"
  shows "(\<forall>nm p. (nm, p) \<in> set (registry w') \<and> (nm, p) \<notin> set (registry w) \<longrightarrow>
             low p \<le> default_value p \<and> default_value p \<le> high p) \<and>
         (\<forall>pre a post g' w1 v.
            select_exchanges w db_name percent = Inr (pre @ a # post, g') \<and>
            assign_loop db_name (w\<lparr>rng := g'\<rparr>) pre = (None, w1) \<and>
            exc_amount (exchange_at (databases w db_name) a) = Num v \<and> v < 0
            \<longrightarrow> r = Some ConfigurationError \<and> w' = w1)"
proof (intro conjI allI impI)
  fix nm p
  assume h: "(nm, p) \<in> set (registry w') \<and> (nm, p) \<notin> set (registry w)"
  from add_exchange_uncertainty_new_params[OF assms] obtain news where
    n: "registry w' = registry w @ news"
       "\<forall>(nm, p)\<in>set news. name p = nm \<and> distribution p = TRIANGLE \<and> 0 \<le> default_value p \<and>
            low p = 0.5 * default_value p \<and> high p = 1.5 * default_value p"
    by blast
  from h n(1) have "(nm, p) \<in> set news" by auto
  with n(2) have "0 \<le> default_value p" "low p = 0.5 * default_value p" "high p = 1.5 * default_value p"
    by auto
  then have res: "low p \<le> default_value p \<and> default_value p \<le> high p" by simp
  from res show "low p \<le> default_value p" by simp
  from res show "default_value p \<le> high p" by simp
next
  fix pre a post g' w1 v
  let ?e = "exchange_at (databases w db_name) a"
  assume h: "select_exchanges w db_name percent = Inr (pre @ a # post, g') \<and>
            assign_loop db_name (w\<lparr>rng := g'\<rparr>) pre = (None, w1) \<and>
            exc_amount ?e = Num v \<and> v < 0"
  then have sel: "select_exchanges w db_name percent = Inr (pre @ a # post, g')"
    and pre: "assign_loop db_name (w\<lparr>rng := g'\<rparr>) pre = (None, w1)"
    and v: "exc_amount ?e = Num v" "v < 0" by simp_all
  have same: "exchange_at (databases w1 db_name) a = ?e"
    using next_exchange_untouched[OF sel pre] .
  have "assign_one db_name w1 a = Inl ConfigurationError"
    using same v by (simp add: assign_one_Inl)
  from assign_loop_stops[OF pre this, of post] sel assms
  have res: "r = Some ConfigurationError \<and> w' = w1"
    by (simp add: add_exchange_uncertainty_selected)
  from res show "r = Some ConfigurationError" by simp
  from res show "w' = w1" by simp
qed

theorem created_parameters_within_bounds_witness:
  "add_exchange_uncertainty (world_of negative_fg (\<lambda>i. 0)) ''fg'' (Some 1) =
     (Some ConfigurationError,
      snd (assign_loop ''fg''
             ((world_of negative_fg (\<lambda>i. 0))\<lparr>rng := snd (sample_loop (exchs negative_fg) 2 (\<lambda>i. 0))\<rparr>)
             [(0, 0)])) \<and>
   registry (snd (add_exchange_uncertainty (world_of negative_fg (\<lambda>i. 0)) ''fg'' (Some 1))) =
     [(''p_bg1'', \<lparr>name = ''p_bg1'', distribution = TRIANGLE, low = 1, high = 3, default_value = 2\<rparr>)] \<and>
   low \<lparr>name = ''p_bg1'', distribution = TRIANGLE, low = 1, high = 3, default_value = 2\<rparr> \<le> 2 \<and>
   2 \<le> high \<lparr>name = ''p_bg1'', distribution = TRIANGLE, low = 1, high = 3, default_value = 2\<rparr>"
proof -
  let ?W = "world_of negative_fg (\<lambda>i. 0)"
  let ?S = "sample_loop (exchs negative_fg) 2 (\<lambda>i. 0)"
  let ?R = "add_exchange_uncertainty ?W ''fg'' (Some 1)"
  let ?L = "assign_loop ''fg'' (?W\<lparr>rng := snd ?S\<rparr>) [(0, 0)]"
  let ?p = "\<lparr>name = ''p_bg1'', distribution = TRIANGLE, low = 1, high = 3, default_value = 2\<rparr>"
  have run: "?R = (fst ?R, snd ?R)" by simp
  have s: "fst ?S = [(0, 0)] @ (0, 1) # []"
    by (simp add: eval_defs upt_rec)
  have sel: "select_exchanges ?W ''fg'' 1 = Inr ?S"
    by (simp add: select_exchanges_def random_sample_def n_uncertain_def py_int_def
        world_of_def exchs_def negative_fg_def single_fg_def upt_rec tech_def)
  have h1: "select_exchanges ?W ''fg'' 1 = Inr ([(0, 0)] @ (0, 1) # [], snd ?S)"
    using sel by (simp only: s[symmetric] prod.collapse)
  have "fst ?L = None" by (simp add: eval_defs)
  then have h2: "?L = (None, snd ?L)" by (simp add: prod_eq_iff)
  have h3: "exc_amount (exchange_at (databases ?W ''fg'') (0, 1)) = Num (- 1) \<and> (- 1::real) < 0"
    by (simp add: eval_defs)
  have reg: "registry (snd ?L) = [(''p_bg1'', ?p)]" by (simp add: eval_defs)
  from created_parameters_within_bounds[OF run] h1 h2 h3
  have r: "fst ?R = Some ConfigurationError \<and> snd ?R = snd ?L" by blast
  have "(''p_bg1'', ?p) \<in> set (registry (snd ?R)) \<and> (''p_bg1'', ?p) \<notin> set (registry ?W)"
    using r reg by (simp add: world_of_def)
  with created_parameters_within_bounds[OF run]
  have "low ?p \<le> default_value ?p \<and> default_value ?p \<le> high ?p" by blast
  with r reg show ?thesis by (simp add: prod_eq_iff)
qed






text \<open>
  C6, as the code has it. A selected exchange of amount 0 is treated as any other:
  after a run that completes it has the zero-width parameter \<open>low = default = high = 0\<close>
  and its amount is the reference to it. The round of such an exchange neither skips
  it nor asks for an absolute spread: it succeeds whenever the name is free.
\<close>

theorem zero_amount_parameterized:
  assumes "select_exchanges w db_name percent = Inr (selected, g')"
    and "add_exchange_uncertainty w db_name (Some percent) = (None, w')"
    and "a \<in> set selected"
    and "exc_amount (exchange_at (databases w db_name) a) = Num 0"
  shows "map_of (registry w') (param_name (exchange_at (databases w db_name) a)) =
           Some \<lparr>name = param_name (exchange_at (databases w db_name) a), distribution = TRIANGLE,
                 low = 0, high = 0, default_value = 0\<rparr> \<and>
         exc_amount (exchange_at (databases w' db_name) a) =
           ParamRef (param_name (exchange_at (databases w db_name) a)) \<and>
         (\<forall>w1. exc_amount (exchange_at (databases w1 db_name) a) = Num 0 \<and>
               map_of (registry w1) (param_name (exchange_at (databases w1 db_name) a)) = None \<longrightarrow>
               (\<exists>w2. assign_one db_name w1 a = Inr w2))"
proof -
  from assms(1,2) have loop: "assign_loop db_name (w\<lparr>rng := g'\<rparr>) selected = (None, w')"
    by (simp add: add_exchange_uncertainty_selected)
  have d: "distinct selected" using select_exchanges_Inr(2)[OF assms(1)] .
  have v: "\<forall>b\<in>set selected. valid_addr (databases (w\<lparr>rng := g'\<rparr>) db_name) b"
    using select_exchanges_valid(1)[OF assms(1)] by simp
  from assign_loop_done[OF loop d assms(3) v] assms(4)
  have "map_of (registry w') (param_name (exchange_at (databases w db_name) a)) =
           Some \<lparr>name = param_name (exchange_at (databases w db_name) a), distribution = TRIANGLE,
                 low = 0, high = 0, default_value = 0\<rparr> \<and>
         exc_amount (exchange_at (databases w' db_name) a) =
           ParamRef (param_name (exchange_at (databases w db_name) a))"
    by auto
  moreover have "\<exists>w2. assign_one db_name w1 a = Inr w2"
    if "exc_amount (exchange_at (databases w1 db_name) a) = Num 0 \<and>
        map_of (registry w1) (param_name (exchange_at (databases w1 db_name) a)) = None" for w1
    using that by (simp add: assign_one_Inr)
  ultimately show ?thesis by blast
qed

theorem zero_amount_parameterized_witness:
  "fst (add_exchange_uncertainty (world_of zero_fg (\<lambda>i. 0)) ''fg'' (Some 0.4)) = None \<and>
   exc_amount (exchange_at (databases (world_of zero_fg (\<lambda>i. 0)) ''fg'') (0, 0)) = Num 0 \<and>
   map_of (registry (snd (add_exchange_uncertainty (world_of zero_fg (\<lambda>i. 0)) ''fg'' (Some 0.4))))
     (param_name (exchange_at (databases (world_of zero_fg (\<lambda>i. 0)) ''fg'') (0, 0))) =
     Some \<lparr>name = param_name (exchange_at (databases (world_of zero_fg (\<lambda>i. 0)) ''fg'') (0, 0)),
           distribution = TRIANGLE, low = 0, high = 0, default_value = 0\<rparr> \<and>
   exc_amount (exchange_at
     (databases (snd (add_exchange_uncertainty (world_of zero_fg (\<lambda>i. 0)) ''fg'' (Some 0.4))) ''fg'') (0, 0)) =
     ParamRef (param_name (exchange_at (databases (world_of zero_fg (\<lambda>i. 0)) ''fg'') (0, 0)))"
proof -
  let ?W = "world_of zero_fg (\<lambda>i. 0)"
  let ?S = "sample_loop (exchs zero_fg) 1 (\<lambda>i. 0)"
  let ?R = "add_exchange_uncertainty ?W ''fg'' (Some 0.4)"
  have s: "fst ?S = [(0, 0)]" by (simp add: eval_defs upt_rec)
  have sel: "select_exchanges ?W ''fg'' 0.4 = Inr ?S"
    by (simp add: select_exchanges_def random_sample_def n_uncertain_def py_int_def
        world_of_def exchs_def zero_fg_def single_fg_def upt_rec tech_def)
  have h1: "select_exchanges ?W ''fg'' 0.4 = Inr ([(0, 0)], snd ?S)"
    using sel by (simp only: s[symmetric] prod.collapse)
  have f: "fst ?R = None" by (simp add: eval_defs upt_rec)
  then have h2: "?R = (None, snd ?R)" by (simp add: prod_eq_iff)
  have h3: "(0, 0) \<in> set [(0::nat, 0::nat)]" by simp
  have h4: "exc_amount (exchange_at (databases ?W ''fg'') (0, 0)) = Num 0"
    by (simp add: eval_defs)
  from zero_amount_parameterized[OF h1 h2 h3 h4] f h4 show ?thesis by blast
qed

text \<open>
  C6 as stated fails: on a database whose only exchange has the amount 0 the
  operation completes, creates the zero-width parameter and rewrites the amount.
\<close>

theorem zero_width_counterexample:
  "fst (add_exchange_uncertainty (world_of zero_fg (\<lambda>i. 0)) ''fg'' None) = None \<and>
   registry (snd (add_exchange_uncertainty (world_of zero_fg (\<lambda>i. 0)) ''fg'' None)) =
     [(''p_bg1'', \<lparr>name = ''p_bg1'', distribution = TRIANGLE, low = 0, high = 0, default_value = 0\<rparr>)] \<and>
   map exc_amount (act_exchanges (hd (databases
      (snd (add_exchange_uncertainty (world_of zero_fg (\<lambda>i. 0)) ''fg'' None)) ''fg''))) =
     [ParamRef ''p_bg1'']"
  by (simp add: eval_defs upt_rec)






text \<open>
  C9. When the database holds no eligible (non-production) exchange, the operation
  does not return silently: the floor \<open>max(1, \<dots>)\<close> asks for one sample of an empty
  population and \<^verbatim>\<open>random.sample\<close> raises \<open>ValueError\<close>; nothing has been changed.
\<close>

theorem empty_population_raises:
  assumes "exchs (databases w db_name) = []"
  shows "add_exchange_uncertainty w db_name percent_arg = (Some ValueError, w)"
proof -
  have "length (exchs (databases w db_name)) < n_uncertain (length (exchs (databases w db_name))) p" for p
    using assms n_uncertain_pos[of 0 p] by simp
  then have "select_exchanges w db_name p = Inl ValueError" for p
    by (simp add: select_exchanges_Inl)
  then show ?thesis by (simp add: add_exchange_uncertainty_def)
qed

theorem empty_population_raises_witness:
  "exchs (databases (world_of production_only_fg (\<lambda>i. 0)) ''fg'') = [] \<and>
   add_exchange_uncertainty (world_of production_only_fg (\<lambda>i. 0)) ''fg'' None =
     (Some ValueError, world_of production_only_fg (\<lambda>i. 0))"
proof -
  have h: "exchs (databases (world_of production_only_fg (\<lambda>i. 0)) ''fg'') = []"
    by (simp add: exchs_def world_of_def production_only_fg_def single_fg_def)
  show ?thesis using h empty_population_raises[OF h, of None] by simp
qed



end
